theory Spec2Isabelle
  imports Main "HOL-Library.Word"
begin

unbundle bit_operations_syntax

section \<open>The binary clock of binarieClock.c\<close>

text \<open>
  The program runs on an 8-bit AVR: \<open>uint8_t\<close> is an 8-bit word, \<open>uint16_t\<close> a 16-bit
  word and \<open>int\<close> a 16-bit two's complement word, compared with the signed order
  \<open>\<le>s\<close>. Addition on words wraps around, as \<open>++\<close> does on the unsigned globals.
  C leaves the overflow of the two \<open>int\<close> counters undefined; the model lets them wrap
  as the 16-bit increment of the target does, and no statement below depends on it.
\<close>

type_synonym uint8 = "8 word"
type_synonym uint16 = "16 word"
type_synonym int16 = "16 word"

subsection \<open>The table of LED pairs (lines 22-49)\<close>

record pair =
  bin :: uint16
  ledPins :: uint8

definition ledPairs :: "pair list" where
  "ledPairs =
    [\<lparr>bin = 0x001, ledPins = 0x03\<rparr>,
     \<lparr>bin = 0x002, ledPins = 0x7D\<rparr>,
     \<lparr>bin = 0x004, ledPins = 0x05\<rparr>,
     \<lparr>bin = 0x008, ledPins = 0x7B\<rparr>,
     \<lparr>bin = 0x010, ledPins = 0x09\<rparr>,
     \<lparr>bin = 0x020, ledPins = 0x77\<rparr>,
     \<lparr>bin = 0x040, ledPins = 0x21\<rparr>,
     \<lparr>bin = 0x080, ledPins = 0x5F\<rparr>,
     \<lparr>bin = 0x100, ledPins = 0x41\<rparr>,
     \<lparr>bin = 0x200, ledPins = 0x3F\<rparr>,
     \<lparr>bin = 0x400, ledPins = 0x81\<rparr>]"

subsection \<open>The globals (lines 12-19) and what the program does to the outside\<close>

text \<open>
  \<open>events\<close> is not a variable of the program: it records, most recent first, every call
  of \<open>updateSeq\<close> (with the hours and minutes it read), every write to the output port
  and every call of \<open>sleep_mode\<close>.
\<close>

datatype event = UpdateSeq uint8 uint8 | PortWrite uint8 | SleepMode

record clock =
  hours :: uint8
  minutes :: uint8
  seconds :: uint8
  ledSeq :: "uint8 list"
  bouncer :: int16
  sleep :: int16
  PORTA :: uint8
  events :: "event list"

text \<open>The globals as their initialisers leave them; \<open>PORTA\<close> is 0 after reset.\<close>

definition power_on :: clock where
  "power_on =
    \<lparr>hours = 3, minutes = 16, seconds = 0, ledSeq = replicate 11 0,
     bouncer = 0, sleep = 0, PORTA = 0, events = []\<rparr>"

subsection \<open>updateSeq (lines 84-123)\<close>

text \<open>
  Line 96. \<open>hours\<close> is promoted to \<open>int\<close> before the shift; \<open>255 << 6\<close> is below
  \<open>2 ^ 15\<close>, so the shift loses nothing and the result fits the \<open>uint16_t\<close>.
\<close>

definition packTime :: "uint8 \<Rightarrow> uint8 \<Rightarrow> uint16" where
  "packTime h m = push_bit 6 (ucast h) XOR ucast m"

text \<open>
  The \<open>for\<close> loop of lines 105-121, with its counter \<open>i\<close>, the write index
  \<open>arrayInd\<close> and the array. \<open>arrayInd\<close> never exceeds \<open>i\<close>, so the write is always
  inside the array (lemma \<open>fillLoop_shape\<close> below covers every call the program makes).
\<close>

function fillLoop :: "uint16 \<Rightarrow> nat \<Rightarrow> nat \<Rightarrow> uint8 list \<Rightarrow> uint8 list" where
  "fillLoop time i arrayInd seq =
     (if i < 11 then
        (if bin (ledPairs ! i) AND time \<noteq> 0
         then fillLoop time (i + 1) (arrayInd + 1) (seq[arrayInd := ledPins (ledPairs ! i)])
         else fillLoop time (i + 1) arrayInd seq)
      else seq)"
  by pat_completeness auto
termination
  by (relation "measure (\<lambda>(time, i, arrayInd, seq). 11 - i)") auto

text \<open>
  What \<open>updateSeq\<close> leaves in \<open>ledSeq\<close> for a value of its local \<open>time\<close>: the
  \<open>memset\<close> of line 87, the guard of line 99 and the loop.
\<close>

definition encode :: "uint16 \<Rightarrow> uint8 list" where
  "encode time =
     (if 0 < time then fillLoop time 0 0 (replicate 11 0) else replicate 11 0)"

definition updateSeq :: "clock \<Rightarrow> clock" where
  "updateSeq s =
     s\<lparr>ledSeq := encode (packTime (hours s) (minutes s)),
       events := UpdateSeq (hours s) (minutes s) # events s\<rparr>"

subsection \<open>timeSetter and the timer interrupt (lines 130-158)\<close>

definition timeSetter :: "clock \<Rightarrow> clock" where
  "timeSetter s0 =
     (let s1 = (if seconds s0 = 60
                then updateSeq (s0\<lparr>seconds := 0, minutes := minutes s0 + 1\<rparr>)
                else s0);
          s2 = (if minutes s1 = 60
                then s1\<lparr>minutes := 0, hours := hours s1 + 1\<rparr>
                else s1)
      in if 24 \<le> hours s2 then s2\<lparr>hours := 0\<rparr> else s2)"

definition ISR_TIMER1_OVF :: "clock \<Rightarrow> clock" where
  "ISR_TIMER1_OVF s =
     (let s1 = timeSetter (s\<lparr>seconds := seconds s + 1\<rparr>)
      in s1\<lparr>sleep := sleep s1 + 1\<rparr>)"

subsection \<open>The pin change interrupt (lines 162-193)\<close>

text \<open>
  The bit numbers of the three pins, as avr/io.h defines them. The handler reads the
  input register \<open>PINA\<close> once and \<open>PINB\<close> twice; the three values read are its inputs.
\<close>

definition PINA0 :: nat where "PINA0 = 0"
definition PINB6 :: nat where "PINB6 = 6"
definition PINB3 :: nat where "PINB3 = 3"

definition ISR_PCINT :: "uint8 \<Rightarrow> uint8 \<Rightarrow> uint8 \<Rightarrow> clock \<Rightarrow> clock" where
  "ISR_PCINT pina pinb pinb' s0 =
     (let s1 = (if pina AND push_bit PINA0 1 = 0
                then (if 10 \<le>s bouncer s0
                      then updateSeq (s0\<lparr>hours := hours s0 + 1, bouncer := 0\<rparr>)
                      else s0)
                else s0);
          s2 = (if pinb AND push_bit PINB6 1 = 0
                then (if 10 \<le>s bouncer s1
                      then updateSeq (s1\<lparr>minutes := minutes s1 + 1, bouncer := 0\<rparr>)
                      else s1)
                else s1)
      in if pinb' AND push_bit PINB3 1 = 0
         then (if 10 \<le>s bouncer s2 then s2\<lparr>sleep := 0, bouncer := 0\<rparr> else s2)
         else s2)"

subsection \<open>The main loop (lines 215-232)\<close>

text \<open>
  The inner \<open>while\<close> of lines 225-229 reads \<open>ledSeq[i]\<close> until it finds 0. Nothing in
  the loop keeps \<open>i\<close> below the size of the array: a read past the end is the fault
  \<open>OutOfBounds\<close>. On a normal exit the loop returns the index it stopped at.
\<close>

datatype fault = OutOfBounds nat

function showSeq :: "nat \<Rightarrow> clock \<Rightarrow> fault + (nat \<times> clock)" where
  "showSeq i s =
     (if length (ledSeq s) \<le> i then Inl (OutOfBounds i)
      else if ledSeq s ! i \<noteq> 0
      then showSeq (i + 1)
             (s\<lparr>PORTA := ledSeq s ! i, events := PortWrite (ledSeq s ! i) # events s\<rparr>)
      else Inr (i, s))"
  by pat_completeness auto
termination
  by (relation "measure (\<lambda>(i, s). length (ledSeq s) - i)") auto

text \<open>One pass of the body of \<open>while(true)\<close>.\<close>

definition mainIter :: "clock \<Rightarrow> fault + clock" where
  "mainIter s =
     (if 25 \<le>s sleep s
      then Inr (s\<lparr>bouncer := 10, PORTA := 0x01,
                 events := SleepMode # PortWrite 0x01 # events s\<rparr>)
      else (case showSeq 0 (s\<lparr>bouncer := bouncer s + 1\<rparr>) of
              Inl e \<Rightarrow> Inl e
            | Inr (i, s') \<Rightarrow> Inr s'))"

subsection \<open>The encoder in the words of the specification\<close>

text \<open>
  The specification describes the encoder by bit positions: scan the positions 0 to 10 in
  ascending order, append the output pattern of every position whose bit is set in the
  word, then the sentinel 0. \<open>outputPattern\<close> reads the pattern of a position off the
  table of the source.
\<close>

definition outputPattern :: "nat \<Rightarrow> uint8" where
  "outputPattern bitPosition = ledPins (ledPairs ! bitPosition)"

definition patterns :: "uint16 \<Rightarrow> uint8 list" where
  "patterns word = map outputPattern (filter (bit word) [0..<11])"

definition encode_spec :: "uint16 \<Rightarrow> uint8 list" where
  "encode_spec word = patterns word @ [0]"

text \<open>The number of \<open>updateSeq\<close> calls a state has seen.\<close>

fun isUpdateSeq :: "event \<Rightarrow> bool" where
  "isUpdateSeq (UpdateSeq h m) = True"
| "isUpdateSeq (PortWrite p) = False"
| "isUpdateSeq SleepMode = False"

definition reencodes :: "clock \<Rightarrow> nat" where
  "reencodes s = length (filter isUpdateSeq (events s))"

text \<open>The time fields are those of a time of day.\<close>

definition inRange :: "clock \<Rightarrow> bool" where
  "inRange s = (hours s \<le> 23 \<and> minutes s \<le> 59 \<and> seconds s \<le> 59)"

subsection \<open>Start-up (lines 51-79 and 213)\<close>

text \<open>
  Of \<open>setup()\<close> the model keeps what touches the state above: the write to the output
  port that sets the pull-up of bit 0 (line 62, \<open>PORTA |= (1 << PORTA0)\<close>) and the first
  call of \<open>updateSeq\<close> (line 78). \<open>PORTA0\<close> is the bit number avr/io.h gives the pin.
  The function is called \<open>setup_mcu\<close> here because its own name is taken.
\<close>

definition PORTA0 :: nat where "PORTA0 = 0"

definition setup_mcu :: "clock \<Rightarrow> clock" where
  "setup_mcu s =
     updateSeq (s\<lparr>PORTA := PORTA s OR push_bit PORTA0 1,
                  events := PortWrite (PORTA s OR push_bit PORTA0 1) # events s\<rparr>)"

section \<open>The encoder\<close>

declare fillLoop.simps [simp del]
declare showSeq.simps [simp del]

lemma length_ledPairs: "length ledPairs = 11"
  by (simp add: ledPairs_def)

lemma bins_are_powers: "map bin ledPairs = map (\<lambda>i. 2 ^ i) [0..<11]"
  by code_simp

lemma bin_ledPairs: "i < 11 \<Longrightarrow> bin (ledPairs ! i) = 2 ^ i"
proof -
  assume i: "i < 11"
  then have "bin (ledPairs ! i) = map bin ledPairs ! i"
    by (simp add: length_ledPairs)
  also have "\<dots> = map (\<lambda>i. 2 ^ i) [0..<11] ! i"
    by (simp only: bins_are_powers)
  also have "\<dots> = 2 ^ i"
    using i by simp
  finally show ?thesis .
qed

lemma pins_nonzero: "0 \<notin> set (map ledPins ledPairs)"
  by (simp add: ledPairs_def)

lemma ledPins_nonzero: "i < 11 \<Longrightarrow> ledPins (ledPairs ! i) \<noteq> 0"
proof -
  assume "i < 11"
  then have "ledPins (ledPairs ! i) \<in> set (map ledPins ledPairs)"
    by (simp add: length_ledPairs)
  with pins_nonzero show ?thesis by metis
qed

text \<open>The mask test of line 116 is the test of bit \<open>i\<close>.\<close>

lemma mask_test_bit: "i < 11 \<Longrightarrow> (bin (ledPairs ! i) AND time \<noteq> 0) = bit time i"
  using and_exp_eq_0_iff_not_bit [of time i]
  by (simp add: bin_ledPairs and.commute)

text \<open>
  The loop, started at \<open>i\<close> on an array whose first \<open>arrayInd\<close> cells are filled and whose
  other cells are 0, appends the patterns of the set bits from \<open>i\<close> on and leaves the
  rest 0. The array has room: \<open>11 - i \<le> k\<close>.
\<close>

lemma fillLoop_shape:
  "length pre = arrayInd \<Longrightarrow> 11 - i \<le> k \<Longrightarrow>
   fillLoop time i arrayInd (pre @ replicate k 0) =
     pre @ map outputPattern (filter (bit time) [i..<11])
         @ replicate (k - length (filter (bit time) [i..<11])) 0"
proof (induction time i arrayInd "pre @ replicate k (0::uint8)" arbitrary: pre k
    rule: fillLoop.induct)
  case (1 time i arrayInd)
  show ?case
  proof (cases "i < 11")
    case False
    then show ?thesis by (simp add: fillLoop.simps)
  next
    case True
    then obtain k' where k: "k = Suc k'"
      using "1.prems"(2) by (cases k) auto
    have upt: "[i..<11] = i # [i + 1..<11]"
      using True by (simp add: upt_conv_Cons)
    show ?thesis
    proof (cases "bit time i")
      case b: True
      have upd: "(pre @ replicate k 0)[arrayInd := ledPins (ledPairs ! i)]
            = (pre @ [ledPins (ledPairs ! i)]) @ replicate k' 0"
        using "1.prems"(1) k by (simp add: list_update_append)
      have "fillLoop time (i + 1) (arrayInd + 1)
              ((pre @ [ledPins (ledPairs ! i)]) @ replicate k' 0)
            = (pre @ [ledPins (ledPairs ! i)])
               @ map outputPattern (filter (bit time) [i + 1..<11])
               @ replicate (k' - length (filter (bit time) [i + 1..<11])) 0"
        using "1.hyps"(1) [OF True _ upd] True b "1.prems" k
        by (simp add: mask_test_bit)
      then show ?thesis
        using True b upd k
        by (subst fillLoop.simps) (simp add: mask_test_bit upt outputPattern_def)
    next
      case nb: False
      have "fillLoop time (i + 1) arrayInd (pre @ replicate k 0)
            = pre @ map outputPattern (filter (bit time) [i + 1..<11])
               @ replicate (k - length (filter (bit time) [i + 1..<11])) 0"
        using "1.hyps"(2) [OF True _ refl] True nb "1.prems"
        by (simp add: mask_test_bit)
      then show ?thesis
        using True nb by (subst fillLoop.simps) (simp add: mask_test_bit upt)
    qed
  qed
qed

lemma length_patterns: "length (patterns time) \<le> 11"
proof -
  have "length (filter (bit time) [0..<11]) \<le> length [0..<11::nat]"
    by (rule length_filter_le)
  then show ?thesis by (simp add: patterns_def)
qed

lemma patterns_nonzero: "0 \<notin> set (patterns time)"
  by (auto simp: patterns_def outputPattern_def ledPins_nonzero)

text \<open>What \<open>updateSeq\<close> leaves in the array, for every value of \<open>time\<close>.\<close>

lemma encode_eq: "encode time = patterns time @ replicate (11 - length (patterns time)) 0"
proof (cases "time = 0")
  case True
  then show ?thesis by (simp add: encode_def patterns_def)
next
  case False
  then have "0 < time" by (simp add: word_greater_zero_iff)
  moreover have "fillLoop time 0 0 ([] @ replicate 11 0) =
      [] @ map outputPattern (filter (bit time) [0..<11])
         @ replicate (11 - length (filter (bit time) [0..<11])) 0"
    by (rule fillLoop_shape) simp_all
  ultimately show ?thesis by (simp add: encode_def patterns_def)
qed

lemma length_encode: "length (encode time) = 11"
  using length_patterns [of time] by (simp add: encode_eq)

text \<open>A word below 2047 has a clear bit among its low eleven, so a cell is left for the 0.\<close>

lemma all_bits_2047:
  fixes w :: uint16
  assumes "\<forall>i<11. bit w i"
  shows "2047 \<le> w"
proof -
  have "w AND mask 11 = mask 11"
    by (rule bit_word_eqI) (use assms in \<open>auto simp: bit_simps\<close>)
  moreover have "w AND mask 11 \<le> w" by (rule word_and_le2)
  moreover have "mask 11 = (2047 :: uint16)" by (simp add: mask_eq_exp_minus_1)
  ultimately show ?thesis by simp
qed

lemma clear_bit_below_2047:
  fixes w :: uint16
  assumes "w < 2047"
  shows "\<exists>i<11. \<not> bit w i"
  using all_bits_2047 [of w] assms by (auto simp: not_le [symmetric])

lemma patterns_room:
  fixes w :: uint16
  assumes "w < 2047"
  shows "length (patterns w) \<le> 10"
proof -
  obtain i where i: "i < 11" "\<not> bit w i" using clear_bit_below_2047 [OF assms] by blast
  have "length (filter (bit w) [0..<11]) < length [0..<11::nat]"
    by (rule length_filter_less [of i]) (use i in auto)
  then show ?thesis by (simp add: patterns_def)
qed

section \<open>The packed time word\<close>

text \<open>Hours up to 23 use five bits and minutes up to 59 six.\<close>

lemma minutes_high_bits:
  fixes m :: uint8
  assumes "m \<le> 59" "6 \<le> n"
  shows "\<not> bit m n"
proof -
  have "m < 2 ^ 6" using assms(1) by (rule order.strict_trans1) simp
  then have "take_bit 6 m = m" by (simp add: take_bit_eq_mask less_mask_eq)
  then have "bit m n = bit (take_bit 6 m) n" by simp
  then show ?thesis using assms(2) by (simp add: bit_take_bit_iff)
qed

lemma hours_high_bits:
  fixes h :: uint8
  assumes "h \<le> 23" "5 \<le> n"
  shows "\<not> bit h n"
proof -
  have "h < 2 ^ 5" using assms(1) by (rule order.strict_trans1) simp
  then have "take_bit 5 h = h" by (simp add: take_bit_eq_mask less_mask_eq)
  then have "bit h n = bit (take_bit 5 h) n" by simp
  then show ?thesis using assms(2) by (simp add: bit_take_bit_iff)
qed

lemma bit_packTime:
  fixes h m :: uint8
  assumes "h \<le> 23" "m \<le> 59"
  shows "bit (packTime h m) n = (if n < 6 then bit m n else bit h (n - 6))"
  using minutes_high_bits [OF assms(2), of n] hours_high_bits [OF assms(1), of "n - 6"]
  by (auto simp: packTime_def bit_simps dest: bit_imp_le_length)

text \<open>
  A minute count up to 59 has one of its bits 2 to 5 clear (all four set is 60 or more),
  and an hour count up to 23 has bit 3 or bit 4 clear (both set is 24 or more).
\<close>

lemma minutes_clear_bit:
  fixes m :: uint8
  assumes "m \<le> 59"
  shows "\<exists>i. 2 \<le> i \<and> i < 6 \<and> \<not> bit m i"
proof (rule ccontr)
  assume "\<not> ?thesis"
  then have all: "\<And>i. 2 \<le> i \<Longrightarrow> i < 6 \<Longrightarrow> bit m i" by blast
  have "m AND push_bit 2 (mask 4) = push_bit 2 (mask 4)"
    by (rule bit_word_eqI) (auto simp: bit_simps intro: all)
  moreover have "push_bit 2 (mask 4) = (60 :: uint8)"
    by (simp add: mask_eq_exp_minus_1)
  moreover have "m AND 60 \<le> m" by (rule word_and_le2)
  ultimately have "60 \<le> m" by simp
  then have "(60::uint8) \<le> 59" using assms by (rule order.trans)
  then show False by simp
qed

lemma hours_clear_bit:
  fixes h :: uint8
  assumes "h \<le> 23"
  shows "\<exists>i. 3 \<le> i \<and> i < 5 \<and> \<not> bit h i"
proof (rule ccontr)
  assume "\<not> ?thesis"
  then have all: "\<And>i. 3 \<le> i \<Longrightarrow> i < 5 \<Longrightarrow> bit h i" by blast
  have "h AND push_bit 3 (mask 2) = push_bit 3 (mask 2)"
    by (rule bit_word_eqI) (auto simp: bit_simps intro: all)
  moreover have "push_bit 3 (mask 2) = (24 :: uint8)"
    by (simp add: mask_eq_exp_minus_1)
  moreover have "h AND 24 \<le> h" by (rule word_and_le2)
  ultimately have "24 \<le> h" by simp
  then have "(24::uint8) \<le> 23" using assms by (rule order.trans)
  then show False by simp
qed

lemma filter_two_fail:
  assumes "a \<in> set xs" "b \<in> set xs" "a \<noteq> b" "\<not> P a" "\<not> P b"
  shows "length (filter P xs) + 2 \<le> length xs"
proof -
  have "{a, b} \<subseteq> set (filter (\<lambda>x. \<not> P x) xs)" using assms by auto
  then have "card {a, b} \<le> card (set (filter (\<lambda>x. \<not> P x) xs))"
    by (intro card_mono) auto
  also have "\<dots> \<le> length (filter (\<lambda>x. \<not> P x) xs)" by (rule card_length)
  finally have "2 \<le> length (filter (\<lambda>x. \<not> P x) xs)" using assms(3) by simp
  moreover have "length (filter P xs) + length (filter (\<lambda>x. \<not> P x) xs) = length xs"
    by (rule sum_length_filter_compl)
  ultimately show ?thesis by arith
qed

lemma popcount_packTime:
  fixes h m :: uint8
  assumes "h \<le> 23" "m \<le> 59"
  shows "length (filter (bit (packTime h m)) [0..<11]) \<le> 9"
proof -
  obtain a where a: "2 \<le> a" "a < 6" "\<not> bit m a"
    using minutes_clear_bit [OF assms(2)] by blast
  obtain b where b: "3 \<le> b" "b < 5" "\<not> bit h b"
    using hours_clear_bit [OF assms(1)] by blast
  have "length (filter (bit (packTime h m)) [0..<11]) + 2 \<le> length [0..<11::nat]"
  proof (rule filter_two_fail [of a _ "b + 6"])
    show "\<not> bit (packTime h m) a" using a by (simp add: bit_packTime [OF assms])
    show "\<not> bit (packTime h m) (b + 6)" using b by (simp add: bit_packTime [OF assms])
  qed (use a b in auto)
  then show ?thesis by simp
qed

section \<open>The interrupt handlers\<close>

lemma updateSeq_fields [simp]:
  "hours (updateSeq s) = hours s"
  "minutes (updateSeq s) = minutes s"
  "seconds (updateSeq s) = seconds s"
  "bouncer (updateSeq s) = bouncer s"
  "sleep (updateSeq s) = sleep s"
  "PORTA (updateSeq s) = PORTA s"
  "ledSeq (updateSeq s) = encode (packTime (hours s) (minutes s))"
  "events (updateSeq s) = UpdateSeq (hours s) (minutes s) # events s"
  by (simp_all add: updateSeq_def)

lemma reencodes_updateSeq [simp]: "reencodes (updateSeq s) = Suc (reencodes s)"
  by (simp add: reencodes_def)

lemma reencodes_update [simp]:
  "reencodes (s\<lparr>hours := h\<rparr>) = reencodes s"
  "reencodes (s\<lparr>minutes := m\<rparr>) = reencodes s"
  "reencodes (s\<lparr>seconds := c\<rparr>) = reencodes s"
  "reencodes (s\<lparr>bouncer := b\<rparr>) = reencodes s"
  "reencodes (s\<lparr>sleep := l\<rparr>) = reencodes s"
  "reencodes (s\<lparr>PORTA := p\<rparr>) = reencodes s"
  "reencodes (s\<lparr>ledSeq := q\<rparr>) = reencodes s"
  by (simp_all add: reencodes_def)

lemma succ_eq_60: "(x + 1 = 60) = (x = 59)" for x :: uint8
proof
  assume "x + 1 = 60"
  then have "x + 1 - 1 = 60 - 1" by simp
  then show "x = 59" by simp
qed simp

lemma pin_low: "(p AND push_bit n 1 = 0) = (\<not> bit p n)" for p :: uint8
  using and_exp_eq_0_iff_not_bit [of p n] by (simp add: push_bit_of_1)

lemma pin_tests:
  "(p AND 1 = 0) = (\<not> bit p 0)"
  "(p AND 64 = 0) = (\<not> bit p 6)"
  "(p AND 8 = 0) = (\<not> bit p 3)" for p :: uint8
  using pin_low [of p 0] pin_low [of p 6] pin_low [of p 3] by simp_all

lemma sle_10_0: "\<not> 10 \<le>s (0 :: int16)"
  by (simp add: word_sle_eq)

lemma sle_10_10: "10 \<le>s (10 :: int16)"
  by (simp add: word_sle_eq)

lemma tick_seconds: "seconds (ISR_TIMER1_OVF s) = (if seconds s = 59 then 0 else seconds s + 1)"
  by (simp add: ISR_TIMER1_OVF_def timeSetter_def Let_def succ_eq_60)

lemma tick_sleep: "sleep (ISR_TIMER1_OVF s) = sleep s + 1"
  by (simp add: ISR_TIMER1_OVF_def timeSetter_def Let_def)

lemma tick_reencodes:
  "reencodes (ISR_TIMER1_OVF s) = reencodes s + (if seconds s = 59 then 1 else 0)"
  by (simp add: ISR_TIMER1_OVF_def timeSetter_def Let_def succ_eq_60 reencodes_def)

lemma tick_same_minute:
  assumes "seconds s \<noteq> 59" "minutes s \<le> 59" "hours s \<le> 23"
  shows "ISR_TIMER1_OVF s = s\<lparr>seconds := seconds s + 1, sleep := sleep s + 1\<rparr>"
proof -
  have "minutes s \<noteq> 60" using assms(2) by auto
  moreover have "\<not> 24 \<le> hours s"
  proof
    assume "24 \<le> hours s"
    then have "(24::uint8) \<le> 23" using assms(3) by (rule order.trans)
    then show False by simp
  qed
  ultimately show ?thesis
    using assms(1) by (simp add: ISR_TIMER1_OVF_def timeSetter_def Let_def succ_eq_60)
qed

lemma hours_wrap: "h \<le> 23 \<Longrightarrow> (24 \<le> h + 1) = (h = 23)" for h :: uint8
proof -
  assume "h \<le> 23"
  then have u: "unat h \<le> 23" by (simp add: word_le_nat_alt)
  then have "unat (h + 1) = unat h + 1" by (simp add: unat_word_ariths)
  then have "(24 \<le> h + 1) = (unat h = 23)" using u by (simp add: word_le_nat_alt)
  then show ?thesis by (simp add: word_unat_eq_iff)
qed

lemma hours_below: "h \<le> 23 \<Longrightarrow> \<not> 24 \<le> h" for h :: uint8
  by unat_arith

lemma tick_rollover:
  assumes "seconds s = 59" "minutes s \<le> 59" "hours s \<le> 23"
  shows "minutes (ISR_TIMER1_OVF s) = (if minutes s = 59 then 0 else minutes s + 1)
    \<and> hours (ISR_TIMER1_OVF s) =
      (if minutes s = 59 then (if hours s = 23 then 0 else hours s + 1) else hours s)
    \<and> seconds (ISR_TIMER1_OVF s) = 0
    \<and> events (ISR_TIMER1_OVF s) = UpdateSeq (hours s) (minutes s + 1) # events s
    \<and> ledSeq (ISR_TIMER1_OVF s) = encode (packTime (hours s) (minutes s + 1))"
  using assms
  by (simp add: ISR_TIMER1_OVF_def timeSetter_def Let_def succ_eq_60 hours_wrap hours_below)

lemma inc_le_59: "m \<le> 59 \<Longrightarrow> m \<noteq> 59 \<Longrightarrow> m + 1 \<le> 59" for m :: uint8
  by unat_arith

lemma inc_le_23: "h \<le> 23 \<Longrightarrow> h \<noteq> 23 \<Longrightarrow> h + 1 \<le> 23" for h :: uint8
  by unat_arith

text \<open>A tick that starts with the three fields in range ends with them in range.\<close>

lemma tick_inRange: "inRange s \<Longrightarrow> inRange (ISR_TIMER1_OVF s)"
proof (cases "seconds s = 59")
  case True
  assume r: "inRange s"
  then have "minutes s \<le> 59" "hours s \<le> 23" by (simp_all add: inRange_def)
  from tick_rollover [OF True this] this show ?thesis
    by (auto simp: inRange_def inc_le_59 inc_le_23)
next
  case False
  assume r: "inRange s"
  then have "minutes s \<le> 59" "hours s \<le> 23" "seconds s \<le> 59" by (simp_all add: inRange_def)
  from tick_same_minute [OF False this(1,2)] this False show ?thesis
    by (simp add: inRange_def inc_le_59)
qed

lemma ticks_same_minute:
  assumes "seconds s = 0" "minutes s \<le> 59" "hours s \<le> 23"
  shows "k \<le> 59 \<Longrightarrow>
    (ISR_TIMER1_OVF ^^ k) s = s\<lparr>seconds := of_nat k, sleep := sleep s + of_nat k\<rparr>"
proof (induction k)
  case 0
  then show ?case using assms(1) by simp
next
  case (Suc k)
  let ?t = "s\<lparr>seconds := of_nat k, sleep := sleep s + of_nat k\<rparr>"
  have k: "k < 59" using Suc.prems by simp
  have "unat (of_nat k :: uint8) = k" using k by (simp add: unat_of_nat)
  then have ne: "(of_nat k :: uint8) \<noteq> 59" using k by auto
  have "(ISR_TIMER1_OVF ^^ Suc k) s = ISR_TIMER1_OVF ?t"
    using Suc.IH k by simp
  also have "\<dots> = ?t\<lparr>seconds := seconds ?t + 1, sleep := sleep ?t + 1\<rparr>"
    by (rule tick_same_minute) (use ne assms in simp_all)
  finally show ?case by (simp add: add.assoc)
qed

text \<open>
  Sixty ticks from second 0 of a time in range: one call of \<open>updateSeq\<close>, which reads
  the minutes before line 138 has wrapped them.
\<close>

lemma ticks_60:
  assumes "seconds s = 0" "minutes s \<le> 59" "hours s \<le> 23"
  shows "seconds ((ISR_TIMER1_OVF ^^ 60) s) = 0
    \<and> minutes ((ISR_TIMER1_OVF ^^ 60) s) = (if minutes s = 59 then 0 else minutes s + 1)
    \<and> hours ((ISR_TIMER1_OVF ^^ 60) s) =
        (if minutes s = 59 then (if hours s = 23 then 0 else hours s + 1) else hours s)
    \<and> events ((ISR_TIMER1_OVF ^^ 60) s) = UpdateSeq (hours s) (minutes s + 1) # events s
    \<and> ledSeq ((ISR_TIMER1_OVF ^^ 60) s) = encode (packTime (hours s) (minutes s + 1))"
proof -
  let ?t = "s\<lparr>seconds := 59, sleep := sleep s + 59\<rparr>"
  have "(ISR_TIMER1_OVF ^^ 59) s = ?t"
    using ticks_same_minute [OF assms, of 59] by simp
  moreover have "(ISR_TIMER1_OVF ^^ 60) s = ISR_TIMER1_OVF ((ISR_TIMER1_OVF ^^ 59) s)"
  proof -
    have "(60::nat) = Suc 59" by simp
    then show ?thesis by (simp only: funpow.simps o_apply)
  qed
  ultimately have e: "(ISR_TIMER1_OVF ^^ 60) s = ISR_TIMER1_OVF ?t" by simp
  have "seconds ?t = 59" "minutes ?t \<le> 59" "hours ?t \<le> 23" using assms by simp_all
  from tick_rollover [OF this] show ?thesis
    by (simp add: e)
qed

text \<open>Whole minutes passing within an hour.\<close>

lemma ticks_minutes:
  assumes "seconds s = 0" "hours s \<le> 23"
  shows "unat (minutes s) + j \<le> 59 \<Longrightarrow>
    seconds ((ISR_TIMER1_OVF ^^ (60 * j)) s) = 0
    \<and> minutes ((ISR_TIMER1_OVF ^^ (60 * j)) s) = minutes s + of_nat j
    \<and> hours ((ISR_TIMER1_OVF ^^ (60 * j)) s) = hours s"
proof (induction j)
  case 0
  then show ?case using assms(1) by simp
next
  case (Suc j)
  let ?u = "(ISR_TIMER1_OVF ^^ (60 * j)) s"
  have u: "seconds ?u = 0" "minutes ?u = minutes s + of_nat j" "hours ?u = hours s"
    using Suc by simp_all
  have n: "unat (minutes s + of_nat j) = unat (minutes s) + j"
    using Suc.prems by (simp add: unat_word_ariths unat_of_nat)
  then have lt: "minutes ?u \<le> 59" "minutes ?u \<noteq> 59"
    using Suc.prems u(2) by (simp_all add: word_le_nat_alt word_unat_eq_iff)
  have "(ISR_TIMER1_OVF ^^ (60 * Suc j)) s = (ISR_TIMER1_OVF ^^ 60) ?u"
    by (simp add: funpow_add)
  with ticks_60 [OF u(1) lt(1)] lt(2) u assms(2) show ?case
    by (simp add: add.assoc)
qed

lemma ticks_sleep: "sleep ((ISR_TIMER1_OVF ^^ k) s) = sleep s + of_nat k"
  by (induction k) (simp_all add: tick_sleep add.assoc)

lemma pcint_reencodes:
  "reencodes (ISR_PCINT pina pinb pinb' s) =
     reencodes s +
       (if hours (ISR_PCINT pina pinb pinb' s) \<noteq> hours s
           \<or> minutes (ISR_PCINT pina pinb pinb' s) \<noteq> minutes s then 1 else 0)"
  by (simp add: ISR_PCINT_def Let_def sle_10_0)

lemma pcint_seconds: "seconds (ISR_PCINT pina pinb pinb' s) = seconds s"
  by (simp add: ISR_PCINT_def Let_def)

lemma wake_press:
  assumes "10 \<le>s bouncer s" "bit pina 0" "bit pinb 6" "\<not> bit pinb' 3"
  shows "ISR_PCINT pina pinb pinb' s = s\<lparr>sleep := 0, bouncer := 0\<rparr>"
  using assms
  by (simp add: ISR_PCINT_def Let_def pin_tests PINA0_def PINB6_def PINB3_def)

section \<open>The main loop\<close>

text \<open>
  On an array \<open>pre @ 0 # rest\<close> with no 0 in \<open>pre\<close> the scan writes the entries of
  \<open>pre\<close> from \<open>i\<close> on to the port and stops at index \<open>length pre\<close>.
\<close>

lemma showSeq_scan:
  assumes "ledSeq s = pre @ 0 # rest" "0 \<notin> set pre" "i \<le> length pre"
  shows "showSeq i s =
    Inr (length pre,
         s\<lparr>PORTA := last (PORTA s # drop i pre),
           events := rev (map PortWrite (drop i pre)) @ events s\<rparr>)"
  using assms
proof (induction i s rule: showSeq.induct)
  case (1 i s)
  show ?case
  proof (cases "i = length pre")
    case True
    then have "ledSeq s ! i = 0" using "1.prems"(1) by (simp add: nth_append)
    then show ?thesis using True "1.prems"(1) by (subst showSeq.simps) simp
  next
    case False
    then have lt: "i < length pre" using "1.prems"(3) by simp
    then have nth: "ledSeq s ! i = pre ! i" using "1.prems"(1) by (simp add: nth_append)
    have nz: "pre ! i \<noteq> 0" using lt "1.prems"(2) by (metis nth_mem)
    have d: "drop i pre = pre ! i # drop (i + 1) pre"
      using lt by (simp add: Cons_nth_drop_Suc)
    let ?t = "s\<lparr>PORTA := ledSeq s ! i, events := PortWrite (ledSeq s ! i) # events s\<rparr>"
    have "showSeq (i + 1) ?t =
      Inr (length pre,
           ?t\<lparr>PORTA := last (PORTA ?t # drop (i + 1) pre),
             events := rev (map PortWrite (drop (i + 1) pre)) @ events ?t\<rparr>)"
      using "1.prems" lt nth nz by (intro "1.IH") simp_all
    then show ?thesis
      using lt nth nz "1.prems"(1) d by (subst showSeq.simps) simp
  qed
qed

lemma showSeq_encode:
  assumes "ledSeq t = encode time" "length (patterns time) \<le> 10"
  shows "showSeq 0 t =
    Inr (length (patterns time),
         t\<lparr>PORTA := last (PORTA t # patterns time),
           events := rev (map PortWrite (patterns time)) @ events t\<rparr>)"
proof -
  have "replicate (11 - length (patterns time)) (0::uint8)
      = 0 # replicate (10 - length (patterns time)) 0"
    using assms(2) by (cases "11 - length (patterns time)") (auto simp: Suc_diff_le)
  then have "ledSeq t = patterns time @ 0 # replicate (10 - length (patterns time)) 0"
    using assms(1) by (simp add: encode_eq)
  from showSeq_scan [OF this patterns_nonzero, of 0] show ?thesis by simp
qed

text \<open>On an array with no 0 from \<open>i\<close> on the scan reads past the end.\<close>

lemma showSeq_full:
  assumes "length (ledSeq s) = n" "0 \<notin> set (drop i (ledSeq s))" "i \<le> n"
  shows "showSeq i s = Inl (OutOfBounds n)"
  using assms
proof (induction i s rule: showSeq.induct)
  case (1 i s)
  show ?case
  proof (cases "i = n")
    case True
    then show ?thesis using "1.prems"(1) by (subst showSeq.simps) simp
  next
    case False
    then have lt: "i < n" using "1.prems"(3) by simp
    then have d: "drop i (ledSeq s) = ledSeq s ! i # drop (i + 1) (ledSeq s)"
      using "1.prems"(1) by (simp add: Cons_nth_drop_Suc)
    then have nz: "ledSeq s ! i \<noteq> 0" "0 \<notin> set (drop (i + 1) (ledSeq s))"
      using "1.prems"(2) by auto
    let ?t = "s\<lparr>PORTA := ledSeq s ! i, events := PortWrite (ledSeq s ! i) # events s\<rparr>"
    have "showSeq (i + 1) ?t = Inl (OutOfBounds n)"
      using "1.prems" lt nz by (intro "1.IH") simp_all
    then show ?thesis
      using lt nz "1.prems"(1) by (subst showSeq.simps) simp
  qed
qed

lemma showSeq_reencodes: "showSeq i s = Inr (j, s') \<Longrightarrow> reencodes s' = reencodes s"
proof (induction i s rule: showSeq.induct)
  case (1 i s)
  show ?case
  proof (cases "length (ledSeq s) \<le> i")
    case True
    then show ?thesis using "1.prems" by (subst (asm) showSeq.simps) simp
  next
    case False
    show ?thesis
    proof (cases "ledSeq s ! i \<noteq> 0")
      case True
      let ?t = "s\<lparr>PORTA := ledSeq s ! i, events := PortWrite (ledSeq s ! i) # events s\<rparr>"
      have "showSeq (i + 1) ?t = Inr (j, s')"
        using "1.prems" False True by (subst (asm) showSeq.simps) simp
      then have "reencodes s' = reencodes ?t"
        using False True by (intro "1.IH") simp_all
      then show ?thesis by (simp add: reencodes_def)
    next
      case z: False
      then show ?thesis using "1.prems" False by (subst (asm) showSeq.simps) simp
    qed
  qed
qed

lemma mainIter_reencodes: "mainIter s = Inr s' \<Longrightarrow> reencodes s' = reencodes s"
proof (cases "25 \<le>s sleep s")
  case True
  assume "mainIter s = Inr s'"
  with True show ?thesis by (auto simp: mainIter_def reencodes_def)
next
  case False
  assume "mainIter s = Inr s'"
  with False obtain j where "showSeq 0 (s\<lparr>bouncer := bouncer s + 1\<rparr>) = Inr (j, s')"
    by (auto simp: mainIter_def split: sum.splits prod.splits)
  from showSeq_reencodes [OF this] show ?thesis by simp
qed

section \<open>When the display is rebuilt\<close>

text \<open>
  A tick calls \<open>updateSeq\<close> once if the seconds roll over and not at all otherwise, and
  then the array is the pattern of the hours and of the minutes plus one, not yet
  wrapped. The pin change handler calls it once if it changes the hours or the minutes
  and not at all otherwise; the main loop never calls it. While the time is in range a
  tick changes the minutes exactly when the seconds roll over, and 60 ticks from second 0
  advance the minutes by one (wrapping at 60) with one call.
\<close>

lemma tick_ledSeq:
  "ledSeq (ISR_TIMER1_OVF s) =
     (if seconds s = 59 then encode (packTime (hours s) (minutes s + 1)) else ledSeq s)"
  by (simp add: ISR_TIMER1_OVF_def timeSetter_def Let_def succ_eq_60)

lemma reencode_in_range:
  "reencodes (ISR_TIMER1_OVF s) = reencodes s + (if seconds s = 59 then 1 else 0)
   \<and> (minutes s \<le> 59 \<and> hours s \<le> 23 \<longrightarrow>
        (minutes (ISR_TIMER1_OVF s) \<noteq> minutes s) = (seconds s = 59))
   \<and> reencodes (ISR_PCINT pina pinb pinb' s) =
        reencodes s +
          (if hours (ISR_PCINT pina pinb pinb' s) \<noteq> hours s
              \<or> minutes (ISR_PCINT pina pinb pinb' s) \<noteq> minutes s then 1 else 0)
   \<and> (mainIter s = Inr s' \<longrightarrow> reencodes s' = reencodes s)
   \<and> (seconds s = 0 \<and> minutes s \<le> 59 \<and> hours s \<le> 23 \<longrightarrow>
        (k < 60 \<longrightarrow> minutes ((ISR_TIMER1_OVF ^^ k) s) = minutes s
                  \<and> reencodes ((ISR_TIMER1_OVF ^^ k) s) = reencodes s)
        \<and> minutes ((ISR_TIMER1_OVF ^^ 60) s) = (if minutes s = 59 then 0 else minutes s + 1)
        \<and> reencodes ((ISR_TIMER1_OVF ^^ 60) s) = reencodes s + 1
        \<and> seconds ((ISR_TIMER1_OVF ^^ 60) s) = 0)"
proof -
  have a: "minutes (ISR_TIMER1_OVF s) \<noteq> minutes s \<longleftrightarrow> seconds s = 59"
    if r: "minutes s \<le> 59" "hours s \<le> 23"
  proof (cases "seconds s = 59")
    case True
    have "minutes s + 1 \<noteq> minutes s" by simp
    with tick_rollover [OF True r] True show ?thesis by auto
  next
    case False
    from tick_same_minute [OF False r] False show ?thesis by simp
  qed
  have b: "minutes ((ISR_TIMER1_OVF ^^ k) s) = minutes s
       \<and> reencodes ((ISR_TIMER1_OVF ^^ k) s) = reencodes s"
    if r: "seconds s = 0" "minutes s \<le> 59" "hours s \<le> 23" and k: "k < 60"
    using ticks_same_minute [OF r, of k] k by simp
  have c: "minutes ((ISR_TIMER1_OVF ^^ 60) s) = (if minutes s = 59 then 0 else minutes s + 1)
       \<and> reencodes ((ISR_TIMER1_OVF ^^ 60) s) = reencodes s + 1
       \<and> seconds ((ISR_TIMER1_OVF ^^ 60) s) = 0"
    if r: "seconds s = 0" "minutes s \<le> 59" "hours s \<le> 23"
    using ticks_60 [OF r] by (simp add: reencodes_def)
  show ?thesis
    using a b c tick_reencodes [of s] pcint_reencodes [of pina pinb pinb' s]
      mainIter_reencodes [of s s']
    by blast
qed

section \<open>The claims\<close>

text \<open>
  C1 (the code departs from the claim). The claim: after every tick and every manual
  adjustment the hours are in 0..23, the minutes and seconds in 0..59, and the encoder
  never reads a field out of range. \<open>timeSetter\<close> calls \<open>updateSeq\<close> (line 135) before
  it wraps the minutes (line 138). Left alone from power-on at 03:16:00, after 2640 ticks
  the time is 04:00:00, the last call of the encoder has read hours 3 and minutes 60, and
  the array holds the pattern of 03:60, which is not the pattern of 04:00. The pin change
  handler increments without wrapping: a press of the hours button at 23 ends with hours
  24, and a press of the minutes button at 59 followed by the tick of second 59 ends with
  minutes 61, which line 138 no longer resets. (A tick that starts in range does end in
  range: lemma \<open>tick_inRange\<close>.)
\<close>

theorem time_fields_leave_range:
  "hours ((ISR_TIMER1_OVF ^^ 2640) (setup_mcu power_on)) = 4
   \<and> minutes ((ISR_TIMER1_OVF ^^ 2640) (setup_mcu power_on)) = 0
   \<and> seconds ((ISR_TIMER1_OVF ^^ 2640) (setup_mcu power_on)) = 0
   \<and> hd (events ((ISR_TIMER1_OVF ^^ 2640) (setup_mcu power_on))) = UpdateSeq 3 60
   \<and> ledSeq ((ISR_TIMER1_OVF ^^ 2640) (setup_mcu power_on)) = encode (packTime 3 60)
   \<and> encode (packTime 3 60) \<noteq> encode (packTime 4 0)
   \<and> hours (ISR_PCINT 0xFE 0xFF 0xFF (power_on\<lparr>hours := 23, bouncer := 10\<rparr>)) = 24
   \<and> minutes (ISR_TIMER1_OVF (ISR_PCINT 0xFF 0xBF 0xFF
        (power_on\<lparr>minutes := 59, seconds := 59, bouncer := 10\<rparr>))) = 61"
proof -
  let ?s = "setup_mcu power_on"
  let ?u = "(ISR_TIMER1_OVF ^^ (60 * 43)) ?s"
  have s: "seconds ?s = 0" "hours ?s = 3" "minutes ?s = 16"
    by (simp_all add: setup_mcu_def power_on_def)
  have "unat (minutes ?s) + 43 \<le> 59" by (simp add: s)
  from ticks_minutes [OF s(1) _ this]
  have u: "seconds ?u = 0" "minutes ?u = 59" "hours ?u = 3"
    by (simp_all add: s)
  have "(ISR_TIMER1_OVF ^^ 2640) ?s = (ISR_TIMER1_OVF ^^ 60) ?u"
  proof -
    have "(2640::nat) = 60 + 60 * 43" by simp
    then show ?thesis by (simp only: funpow_add o_apply)
  qed
  with ticks_60 [OF u(1)] u
  have a: "hours ((ISR_TIMER1_OVF ^^ 2640) ?s) = 4
   \<and> minutes ((ISR_TIMER1_OVF ^^ 2640) ?s) = 0
   \<and> seconds ((ISR_TIMER1_OVF ^^ 2640) ?s) = 0
   \<and> hd (events ((ISR_TIMER1_OVF ^^ 2640) ?s)) = UpdateSeq 3 60
   \<and> ledSeq ((ISR_TIMER1_OVF ^^ 2640) ?s) = encode (packTime 3 60)"
    by simp
  have b: "encode (packTime 3 60) \<noteq> encode (packTime 4 0)
   \<and> hours (ISR_PCINT 0xFE 0xFF 0xFF (power_on\<lparr>hours := 23, bouncer := 10\<rparr>)) = 24
   \<and> minutes (ISR_TIMER1_OVF (ISR_PCINT 0xFF 0xBF 0xFF
        (power_on\<lparr>minutes := 59, seconds := 59, bouncer := 10\<rparr>))) = 61"
    by code_simp
  from a b show ?thesis by blast
qed

text \<open>
  C2 (the code departs from the claim). The claim: an accepted press of the hours button
  adds 1 to the hours and wraps at 24, one of the minutes button adds 1 to the minutes
  and wraps at 60, each followed by a re-encode, the seconds untouched. The handler adds 1
  and re-encodes but does not wrap: at hours 23 it leaves 24 and the encoder reads 24; at
  minutes 59 it leaves 60 and the encoder reads 60. The wrap of \<open>timeSetter\<close> comes only
  with the next tick.
\<close>

theorem adjust_does_not_wrap:
  "hours (ISR_PCINT 0xFE 0xFF 0xFF (power_on\<lparr>hours := 23, bouncer := 10\<rparr>)) = 24
   \<and> events (ISR_PCINT 0xFE 0xFF 0xFF (power_on\<lparr>hours := 23, bouncer := 10\<rparr>))
       = [UpdateSeq 24 16]
   \<and> minutes (ISR_PCINT 0xFF 0xBF 0xFF (power_on\<lparr>minutes := 59, bouncer := 10\<rparr>)) = 60
   \<and> events (ISR_PCINT 0xFF 0xBF 0xFF (power_on\<lparr>minutes := 59, bouncer := 10\<rparr>))
       = [UpdateSeq 3 60]"
  by code_simp




text \<open>
  C4. At 00:00 the packed word is 0 and the encoder leaves the array all 0: no pattern
  before the sentinel.
\<close>

theorem encode_midnight_empty:
  "encode 0 = replicate 11 0
   \<and> encode_spec 0 = [0]
   \<and> packTime 0 0 = 0
   \<and> ledSeq (updateSeq (s\<lparr>hours := 0, minutes := 0\<rparr>)) = replicate 11 0"
  by (simp add: encode_def encode_spec_def patterns_def packTime_def)

text \<open>
  C5 (amended). At 00:01 the packed word is 1, bit 0 is set, and the encoder writes the
  single pattern 0b00000011 of the first table entry, then the sentinel. The pattern
  0b01111101 belongs to bit 1: it is what the encoder writes for the word 2, the packed
  word of 00:02.
\<close>

theorem encode_one:
  "encode 1 = encode_spec 1 @ replicate 9 0
   \<and> encode_spec 1 = [0x03, 0]
   \<and> packTime 0 1 = 1
   \<and> outputPattern 0 = 0x03 \<and> outputPattern 1 = 0x7D
   \<and> encode_spec 2 = [0x7D, 0]
   \<and> encode 2 = [0x7D] @ replicate 10 0
   \<and> packTime 0 2 = 2"
  by code_simp

text \<open>C5 as stated fails: the array for the word 1 does not start with 0b01111101, 0.\<close>

theorem encode_one_not_0x7D: "take 2 (encode 1) \<noteq> [0x7D, 0]"
  by code_simp

text \<open>
  C6. For hours up to 23 and minutes up to 59 the exclusive or of line 96 is the bitwise
  or, the word is below \<open>2 ^ 11\<close>, its bits 0 to 5 are the minutes and its bits from 6 on
  are the hours.
\<close>

theorem packTime_or:
  fixes h m :: uint8
  assumes "h \<le> 23" "m \<le> 59"
  shows "packTime h m = push_bit 6 (ucast h) OR ucast m
    \<and> packTime h m < 2048
    \<and> take_bit 6 (packTime h m) = ucast m
    \<and> drop_bit 6 (packTime h m) = ucast h"
proof -
  have 1: "packTime h m = push_bit 6 (ucast h) OR ucast m"
    by (rule bit_word_eqI) (use minutes_high_bits [OF assms(2)] in \<open>auto simp: packTime_def bit_simps\<close>)
  have "take_bit 11 (packTime h m) = packTime h m"
  proof (rule bit_word_eqI)
    fix n assume "n < LENGTH(16)"
    show "bit (take_bit 11 (packTime h m)) n = bit (packTime h m) n"
      using hours_high_bits [OF assms(1), of "n - 6"] minutes_high_bits [OF assms(2), of n]
      by (cases "n < 11") (auto simp: bit_packTime [OF assms] bit_simps)
  qed
  moreover have "packTime h m AND mask 11 < 2 ^ 11"
    by (rule and_mask_less') simp
  ultimately have 2: "packTime h m < 2 ^ 11"
    by (simp add: take_bit_eq_mask)
  have 3: "take_bit 6 (packTime h m) = ucast m"
    by (rule bit_word_eqI) (use minutes_high_bits [OF assms(2)] in \<open>auto simp: bit_packTime [OF assms] bit_simps\<close>)
  have 4: "drop_bit 6 (packTime h m) = ucast h"
    by (rule bit_word_eqI) (use hours_high_bits [OF assms(1)] in \<open>auto simp: bit_packTime [OF assms] bit_simps dest: bit_imp_le_length\<close>)
  from 1 2 3 4 show ?thesis by simp
qed

theorem packTime_or_witness:
  "packTime 3 16 = 208 \<and> packTime 23 59 = 1531
   \<and> packTime 3 16 = push_bit 6 3 OR 16 \<and> drop_bit 6 (packTime 23 59) = 23
   \<and> take_bit 6 (packTime 23 59) = 59"
  using packTime_or [of 3 16] packTime_or [of 23 59]
  by (simp add: packTime_def)

text \<open>
  C7 (amended). One run of the pin change handler tests the hours pin, the minutes pin and
  the wake pin in this order, each against the one counter. If the counter is below 10
  the run changes nothing, whatever the pins read, and so does a run in which no pin
  reads low. If the counter is 10 or more, the action of the first button whose pin reads
  low runs once and sets the counter to 0: the hours button adds 1 to the hours, the
  minutes button adds 1 to the minutes, each followed by one call of \<open>updateSeq\<close> that
  rebuilds the array from the new time, and the wake button sets \<open>sleep\<close> to 0. A button
  tested after it finds the counter at 0, and its action does not run.
\<close>

theorem debounce_gate:
  "(\<not> 10 \<le>s bouncer s \<longrightarrow> ISR_PCINT pina pinb pinb' s = s)
   \<and> (bit pina 0 \<and> bit pinb 6 \<and> bit pinb' 3 \<longrightarrow> ISR_PCINT pina pinb pinb' s = s)
   \<and> (10 \<le>s bouncer s \<and> \<not> bit pina 0 \<longrightarrow>
        ISR_PCINT pina pinb pinb' s =
          s\<lparr>hours := hours s + 1,
            ledSeq := encode (packTime (hours s + 1) (minutes s)),
            bouncer := 0,
            events := UpdateSeq (hours s + 1) (minutes s) # events s\<rparr>)
   \<and> (10 \<le>s bouncer s \<and> bit pina 0 \<and> \<not> bit pinb 6 \<longrightarrow>
        ISR_PCINT pina pinb pinb' s =
          s\<lparr>minutes := minutes s + 1,
            ledSeq := encode (packTime (hours s) (minutes s + 1)),
            bouncer := 0,
            events := UpdateSeq (hours s) (minutes s + 1) # events s\<rparr>)
   \<and> (10 \<le>s bouncer s \<and> bit pina 0 \<and> bit pinb 6 \<and> \<not> bit pinb' 3 \<longrightarrow>
        ISR_PCINT pina pinb pinb' s = s\<lparr>bouncer := 0, sleep := 0\<rparr>)"
  by (cases s)
    (simp add: ISR_PCINT_def Let_def pin_tests PINA0_def PINB6_def PINB3_def sle_10_0
      updateSeq_def)

theorem debounce_gate_witness:
  "ISR_PCINT 0xFE 0xBF 0xF7 (power_on\<lparr>bouncer := 9\<rparr>) = power_on\<lparr>bouncer := 9\<rparr>
   \<and> ISR_PCINT 0xFF 0xFF 0xFF (power_on\<lparr>bouncer := 10\<rparr>) = power_on\<lparr>bouncer := 10\<rparr>
   \<and> ISR_PCINT 0xFE 0xBF 0xF7 (power_on\<lparr>bouncer := 10\<rparr>)
       = power_on\<lparr>bouncer := 10, hours := 4, ledSeq := encode (packTime 4 16), bouncer := 0,
           events := [UpdateSeq 4 16]\<rparr>
   \<and> ISR_PCINT 0xFF 0xBF 0xF7 (power_on\<lparr>bouncer := 10\<rparr>)
       = power_on\<lparr>bouncer := 10, minutes := 17, ledSeq := encode (packTime 3 17), bouncer := 0,
           events := [UpdateSeq 3 17]\<rparr>
   \<and> ISR_PCINT 0xFF 0xFF 0xF7 (power_on\<lparr>bouncer := 10, sleep := 25\<rparr>)
       = power_on\<lparr>bouncer := 10, sleep := 25, bouncer := 0, sleep := 0\<rparr>"
proof -
  have lo: "\<not> 10 \<le>s bouncer (power_on\<lparr>bouncer := 9\<rparr>)"
    by (simp add: word_sle_eq)
  have hi: "10 \<le>s bouncer (power_on\<lparr>bouncer := 10\<rparr>)"
      "10 \<le>s bouncer (power_on\<lparr>bouncer := 10, sleep := 25\<rparr>)"
    by (simp_all add: word_sle_eq)
  have pins: "bit (0xFF :: uint8) 0" "bit (0xFF :: uint8) 6" "bit (0xFF :: uint8) 3"
      "\<not> bit (0xFE :: uint8) 0" "\<not> bit (0xBF :: uint8) 6" "\<not> bit (0xF7 :: uint8) 3"
    by simp_all
  have v: "hours (power_on\<lparr>bouncer := 10\<rparr>) = 3" "minutes (power_on\<lparr>bouncer := 10\<rparr>) = 16"
      "events (power_on\<lparr>bouncer := 10\<rparr>) = []"
    by (simp_all add: power_on_def)
  from debounce_gate [of "power_on\<lparr>bouncer := 9\<rparr>" "0xFE" "0xBF" "0xF7"]
    debounce_gate [of "power_on\<lparr>bouncer := 10\<rparr>" "0xFF" "0xFF" "0xFF"]
    debounce_gate [of "power_on\<lparr>bouncer := 10\<rparr>" "0xFE" "0xBF" "0xF7"]
    debounce_gate [of "power_on\<lparr>bouncer := 10\<rparr>" "0xFF" "0xBF" "0xF7"]
    debounce_gate [of "power_on\<lparr>bouncer := 10, sleep := 25\<rparr>" "0xFF" "0xFF" "0xF7"]
    lo hi pins
  show ?thesis by (simp add: v)
qed

text \<open>
  C7 as stated fails for an edge of the minutes button at counter 10 while the hours pin
  reads low: the hours are incremented, the minutes are not, and the state is not the one
  the action of the minutes button gives. Likewise a wake press that comes with a minutes
  press leaves \<open>sleep\<close> as it was.
\<close>

theorem minutes_edge_spent_by_hours:
  "10 \<le>s bouncer (power_on\<lparr>bouncer := 10\<rparr>)
   \<and> \<not> bit (0xBF :: uint8) 6
   \<and> minutes (ISR_PCINT 0xFE 0xBF 0xFF (power_on\<lparr>bouncer := 10\<rparr>)) = 16
   \<and> hours (ISR_PCINT 0xFE 0xBF 0xFF (power_on\<lparr>bouncer := 10\<rparr>)) = 4
   \<and> events (ISR_PCINT 0xFE 0xBF 0xFF (power_on\<lparr>bouncer := 10\<rparr>)) = [UpdateSeq 4 16]
   \<and> ISR_PCINT 0xFE 0xBF 0xFF (power_on\<lparr>bouncer := 10\<rparr>)
       \<noteq> updateSeq (power_on\<lparr>bouncer := 10, minutes := 17, bouncer := 0\<rparr>)
   \<and> sleep (ISR_PCINT 0xFF 0xBF 0xF7 (power_on\<lparr>bouncer := 10, sleep := 25\<rparr>)) = 25"
  by code_simp

text \<open>
  C8 (the code departs from the claim). The claim: the display sequence is rebuilt
  exactly when a tick rolls the minute over or a manual adjustment is applied. At 03:59:00
  with the counter at 10 a press of the minutes button leaves minutes 60 (the handler
  does not wrap, see C2) and the array at the pattern of 03:60. The next tick takes
  lines 138-141: minutes 60 becomes 0 and hours 3 becomes 4, with no call of
  \<open>updateSeq\<close>: the log of calls and the array are what they were, and the array, still
  the pattern of 03:60, is not the pattern of 04:00. Lemma \<open>reencode_in_range\<close> above is
  what holds while the time is in range.
\<close>

theorem stale_display_after_press:
  "minutes (ISR_PCINT 0xFF 0xBF 0xFF (updateSeq (power_on\<lparr>minutes := 59, bouncer := 10\<rparr>))) = 60
   \<and> ledSeq (ISR_PCINT 0xFF 0xBF 0xFF (updateSeq (power_on\<lparr>minutes := 59, bouncer := 10\<rparr>)))
        = encode (packTime 3 60)
   \<and> hours (ISR_TIMER1_OVF (ISR_PCINT 0xFF 0xBF 0xFF
        (updateSeq (power_on\<lparr>minutes := 59, bouncer := 10\<rparr>)))) = 4
   \<and> minutes (ISR_TIMER1_OVF (ISR_PCINT 0xFF 0xBF 0xFF
        (updateSeq (power_on\<lparr>minutes := 59, bouncer := 10\<rparr>)))) = 0
   \<and> seconds (ISR_TIMER1_OVF (ISR_PCINT 0xFF 0xBF 0xFF
        (updateSeq (power_on\<lparr>minutes := 59, bouncer := 10\<rparr>)))) = 1
   \<and> events (ISR_TIMER1_OVF (ISR_PCINT 0xFF 0xBF 0xFF
        (updateSeq (power_on\<lparr>minutes := 59, bouncer := 10\<rparr>))))
        = events (ISR_PCINT 0xFF 0xBF 0xFF (updateSeq (power_on\<lparr>minutes := 59, bouncer := 10\<rparr>)))
   \<and> reencodes (ISR_TIMER1_OVF (ISR_PCINT 0xFF 0xBF 0xFF
        (updateSeq (power_on\<lparr>minutes := 59, bouncer := 10\<rparr>))))
        = reencodes (ISR_PCINT 0xFF 0xBF 0xFF (updateSeq (power_on\<lparr>minutes := 59, bouncer := 10\<rparr>)))
   \<and> ledSeq (ISR_TIMER1_OVF (ISR_PCINT 0xFF 0xBF 0xFF
        (updateSeq (power_on\<lparr>minutes := 59, bouncer := 10\<rparr>)))) = encode (packTime 3 60)
   \<and> encode (packTime 3 60) \<noteq> encode (packTime 4 0)"
  by code_simp

text \<open>
  C9. When the main loop finds \<open>sleep\<close> at 25 or more it sets the counter to 10 (which
  passes the test of the handler), writes 0x01 to the port (only bit 0, the wake pin,
  high) and calls \<open>sleep_mode\<close>. A press of the wake button then sets \<open>sleep\<close> and the
  counter to 0, and the next pass of the loop takes the other branch: it counts the
  counter up to 1 and scans the array, writing its patterns to the port. 25 ticks from
  \<open>sleep = 0\<close> bring \<open>sleep\<close> to 25.
\<close>

theorem sleep_and_wake:
  assumes "25 \<le>s sleep s"
  shows "mainIter s =
      Inr (s\<lparr>bouncer := 10, PORTA := 0x01, events := SleepMode # PortWrite 0x01 # events s\<rparr>)
    \<and> (10::int16) \<le>s 10
    \<and> (bit (0x01 :: uint8) n = (n = 0))
    \<and> (bit pina 0 \<and> bit pinb 6 \<and> \<not> bit pinb' 3 \<longrightarrow>
         ISR_PCINT pina pinb pinb'
           (s\<lparr>bouncer := 10, PORTA := 0x01, events := SleepMode # PortWrite 0x01 # events s\<rparr>)
           = s\<lparr>bouncer := 0, sleep := 0, PORTA := 0x01,
               events := SleepMode # PortWrite 0x01 # events s\<rparr>
       \<and> mainIter (s\<lparr>bouncer := 0, sleep := 0, PORTA := 0x01,
                      events := SleepMode # PortWrite 0x01 # events s\<rparr>)
           = (case showSeq 0 (s\<lparr>bouncer := 1, sleep := 0, PORTA := 0x01,
                                 events := SleepMode # PortWrite 0x01 # events s\<rparr>) of
                Inl e \<Rightarrow> Inl e | Inr (i, s') \<Rightarrow> Inr s')
       \<and> (ledSeq s = encode time \<and> time < 2047 \<longrightarrow>
           mainIter (s\<lparr>bouncer := 0, sleep := 0, PORTA := 0x01,
                        events := SleepMode # PortWrite 0x01 # events s\<rparr>)
             = Inr (s\<lparr>bouncer := 1, sleep := 0, PORTA := last (0x01 # patterns time),
                      events := rev (map PortWrite (patterns time))
                                  @ SleepMode # PortWrite 0x01 # events s\<rparr>)))
    \<and> (sleep t = 0 \<longrightarrow> 25 \<le>s sleep ((ISR_TIMER1_OVF ^^ 25) t))"
proof -
  let ?s1 = "s\<lparr>bouncer := 10, PORTA := 0x01, events := SleepMode # PortWrite 0x01 # events s\<rparr>"
  let ?s2 = "s\<lparr>bouncer := 0, sleep := 0, PORTA := 0x01,
               events := SleepMode # PortWrite 0x01 # events s\<rparr>"
  have 1: "mainIter s = Inr ?s1" using assms by (simp add: mainIter_def)
  have 2: "bit (0x01 :: uint8) n = (n = 0)" by (simp add: bit_1_iff)
  have 3: "ISR_PCINT pina pinb pinb' ?s1 = ?s2"
    if "bit pina 0 \<and> bit pinb 6 \<and> \<not> bit pinb' 3"
    using that wake_press [of ?s1 pina pinb pinb'] by (simp add: sle_10_10)
  have n25: "\<not> 25 \<le>s (0::int16)" by (simp add: word_sle_eq)
  have 4: "mainIter ?s2 =
      (case showSeq 0 (s\<lparr>bouncer := 1, sleep := 0, PORTA := 0x01,
                                 events := SleepMode # PortWrite 0x01 # events s\<rparr>) of
                Inl e \<Rightarrow> Inl e | Inr (i, s') \<Rightarrow> Inr s')"
  proof -
    have "?s2\<lparr>bouncer := bouncer ?s2 + 1\<rparr> =
        s\<lparr>bouncer := 1, sleep := 0, PORTA := 0x01,
          events := SleepMode # PortWrite 0x01 # events s\<rparr>"
      by (cases s) simp
    then have "showSeq 0 (?s2\<lparr>bouncer := bouncer ?s2 + 1\<rparr>) =
        showSeq 0 (s\<lparr>bouncer := 1, sleep := 0, PORTA := 0x01,
          events := SleepMode # PortWrite 0x01 # events s\<rparr>)"
      by (rule arg_cong)
    moreover have "mainIter ?s2 =
        (case showSeq 0 (?s2\<lparr>bouncer := bouncer ?s2 + 1\<rparr>) of
           Inl e \<Rightarrow> Inl e | Inr (i, s') \<Rightarrow> Inr s')"
      by (simp add: mainIter_def n25)
    ultimately show ?thesis by (simp only:)
  qed
  have 5: "mainIter ?s2 = Inr (s\<lparr>bouncer := 1, sleep := 0, PORTA := last (0x01 # patterns time),
                      events := rev (map PortWrite (patterns time))
                                  @ SleepMode # PortWrite 0x01 # events s\<rparr>)"
    if "ledSeq s = encode time \<and> time < 2047"
  proof -
    let ?u = "s\<lparr>bouncer := 1, sleep := 0, PORTA := 0x01,
                                 events := SleepMode # PortWrite 0x01 # events s\<rparr>"
    have "showSeq 0 ?u = Inr (length (patterns time),
         ?u\<lparr>PORTA := last (PORTA ?u # patterns time),
           events := rev (map PortWrite (patterns time)) @ events ?u\<rparr>)"
      by (rule showSeq_encode) (use that patterns_room [of time] in simp_all)
    then show ?thesis by (simp add: 4)
  qed
  have 6: "25 \<le>s sleep ((ISR_TIMER1_OVF ^^ 25) t)" if "sleep t = 0"
    using that by (simp add: ticks_sleep word_sle_eq)
  from 1 2 3 4 5 6 sle_10_10 show ?thesis by blast
qed

theorem sleep_and_wake_witness:
  "25 \<le>s sleep (power_on\<lparr>sleep := 25\<rparr>)
   \<and> mainIter (power_on\<lparr>sleep := 25\<rparr>) =
      Inr (power_on\<lparr>sleep := 25, bouncer := 10, PORTA := 0x01,
             events := SleepMode # PortWrite 0x01 # events (power_on\<lparr>sleep := 25\<rparr>)\<rparr>)
   \<and> ISR_PCINT 0xFF 0xFF 0xF7
        (power_on\<lparr>sleep := 25, bouncer := 10, PORTA := 0x01,
             events := SleepMode # PortWrite 0x01 # events (power_on\<lparr>sleep := 25\<rparr>)\<rparr>)
       = power_on\<lparr>sleep := 25, bouncer := 0, sleep := 0, PORTA := 0x01,
             events := SleepMode # PortWrite 0x01 # events (power_on\<lparr>sleep := 25\<rparr>)\<rparr>
   \<and> mainIter (power_on\<lparr>sleep := 25, bouncer := 0, sleep := 0, PORTA := 0x01,
             events := SleepMode # PortWrite 0x01 # events (power_on\<lparr>sleep := 25\<rparr>)\<rparr>)
       = Inr (power_on\<lparr>sleep := 25, bouncer := 1, sleep := 0, PORTA := last (0x01 # patterns 0),
                events := rev (map PortWrite (patterns 0))
                   @ SleepMode # PortWrite 0x01 # events (power_on\<lparr>sleep := 25\<rparr>)\<rparr>)
   \<and> 25 \<le>s sleep ((ISR_TIMER1_OVF ^^ 25) power_on)"
proof -
  have h: "25 \<le>s sleep (power_on\<lparr>sleep := 25\<rparr>)"
    by (simp add: word_sle_eq)
  have p: "bit (0xFF :: uint8) 0 \<and> bit (0xFF :: uint8) 6 \<and> \<not> bit (0xF7 :: uint8) 3"
    by simp
  have e: "ledSeq (power_on\<lparr>sleep := 25\<rparr>) = encode 0 \<and> (0 :: uint16) < 2047"
    by (simp add: power_on_def encode_def)
  have z: "sleep power_on = 0"
    by (simp add: power_on_def)
  from sleep_and_wake [OF h, of 0 "0xFF" "0xFF" "0xF7" 0 power_on] h p e z
  show ?thesis by blast
qed

text \<open>
  C10. For hours up to 23 and minutes up to 59 at most 9 of the low eleven bits of the
  packed word are set, so the last two cells of the array \<open>updateSeq\<close> builds are 0, and
  the scan of the main loop over that array stops at an index of at most 9, after writing
  the patterns to the port.
\<close>

theorem scan_stays_in_bounds:
  assumes "hours s \<le> 23" "minutes s \<le> 59"
    and "ledSeq t = ledSeq (updateSeq s)"
  shows "length (filter (bit (packTime (hours s) (minutes s))) [0..<11]) \<le> 9
    \<and> length (ledSeq (updateSeq s)) = 11
    \<and> ledSeq (updateSeq s) ! 9 = 0 \<and> ledSeq (updateSeq s) ! 10 = 0
    \<and> showSeq 0 t =
        Inr (length (patterns (packTime (hours s) (minutes s))),
             t\<lparr>PORTA := last (PORTA t # patterns (packTime (hours s) (minutes s))),
               events := rev (map PortWrite (patterns (packTime (hours s) (minutes s))))
                           @ events t\<rparr>)
    \<and> length (patterns (packTime (hours s) (minutes s))) \<le> 9"
proof -
  let ?w = "packTime (hours s) (minutes s)"
  have c: "length (filter (bit ?w) [0..<11]) \<le> 9"
    by (rule popcount_packTime [OF assms(1,2)])
  then have n: "length (patterns ?w) \<le> 9" by (simp add: patterns_def)
  have l: "length (ledSeq (updateSeq s)) = 11" by (simp add: length_encode)
  have z: "ledSeq (updateSeq s) ! 9 = 0" "ledSeq (updateSeq s) ! 10 = 0"
    using n by (simp_all add: encode_eq nth_append)
  have "showSeq 0 t =
        Inr (length (patterns ?w),
             t\<lparr>PORTA := last (PORTA t # patterns ?w),
               events := rev (map PortWrite (patterns ?w)) @ events t\<rparr>)"
    by (rule showSeq_encode) (use assms(3) n in simp_all)
  with c n l z show ?thesis by simp
qed

theorem scan_stays_in_bounds_witness:
  "hours power_on \<le> 23 \<and> minutes power_on \<le> 59
   \<and> length (patterns (packTime (hours power_on) (minutes power_on))) = 3
   \<and> ledSeq (updateSeq power_on) ! 10 = 0
   \<and> showSeq 0 (setup_mcu power_on) =
     Inr (3, (setup_mcu power_on)\<lparr>PORTA := 0x5F,
            events := [PortWrite 0x5F, PortWrite 0x21, PortWrite 0x09]
                        @ events (setup_mcu power_on)\<rparr>)"
proof -
  have h: "hours power_on \<le> 23" "minutes power_on \<le> 59"
    by (simp_all add: power_on_def)
  have l: "ledSeq (setup_mcu power_on) = ledSeq (updateSeq power_on)"
    by (simp add: setup_mcu_def)
  have p: "patterns (packTime (hours power_on) (minutes power_on)) = [0x09, 0x21, 0x5F]"
    by code_simp
  from scan_stays_in_bounds [OF h l] h show ?thesis
    by (simp add: p)
qed

end
